theory Spec2Isabelle
  imports Main
begin

section \<open>Python values, dictionaries and exceptions\<close>

text \<open>
  A field value of a row is a string, an integer or a nested dictionary with string keys.
  A Python dictionary keeps its keys in insertion order and holds each key once; it is
  modelled as an association list. Well-formed dictionaries have distinct keys
  (\<open>distinct (dict_keys d)\<close>); the operations below preserve that.
\<close>

datatype pyval = PStr string | PInt int | PDict "(string \<times> pyval) list"

text \<open>
  The exceptions of \<open>datamap.py\<close>. Both checks of \<open>_add_entry\<close> raise Python's
  \<open>KeyError\<close>, told apart by their message:
  \<open>MissingField\<close> is \<open>KeyError("An entry is missing a name value")\<close>,
  \<open>DuplicateKey\<close> is \<open>KeyError("An entry with the given key already exists")\<close>,
  \<open>KeyNotFound\<close> is the \<open>KeyError\<close> of subscripting a dictionary with an absent key.
  \<open>AttributeError\<close> and \<open>TypeError\<close> are raised by Python itself when the \<open>name\<close>
  field is not a dictionary or a name is not hashable.
\<close>

datatype error = MissingField | DuplicateKey | KeyNotFound | AttributeError | TypeError

definition dict_keys :: "('k \<times> 'v) list \<Rightarrow> 'k list" where
  "dict_keys d = map fst d"

definition dict_contains :: "'k \<Rightarrow> ('k \<times> 'v) list \<Rightarrow> bool" where
  "dict_contains k d = (k \<in> set (dict_keys d))"

text \<open>\<open>d.get(k, None)\<close>\<close>

definition dict_get :: "('k \<times> 'v) list \<Rightarrow> 'k \<Rightarrow> 'v option" where
  "dict_get d k = map_of d k"

text \<open>\<open>d[k] = v\<close>: overwrites in place when \<open>k\<close> is present, appends at the end otherwise.\<close>

fun dict_set :: "('k \<times> 'v) list \<Rightarrow> 'k \<Rightarrow> 'v \<Rightarrow> ('k \<times> 'v) list" where
  "dict_set [] k v = [(k, v)]"
| "dict_set ((k', v') # d) k v =
     (if k' = k then (k, v) # d else (k', v') # dict_set d k v)"

text \<open>\<open>del d[k]\<close>: raises \<open>KeyError\<close> when \<open>k\<close> is absent.\<close>

fun dict_remove :: "('k \<times> 'v) list \<Rightarrow> 'k \<Rightarrow> ('k \<times> 'v) list" where
  "dict_remove [] k = []"
| "dict_remove ((k', v') # d) k = (if k' = k then d else (k', v') # dict_remove d k)"

definition dict_del :: "('k \<times> 'v) list \<Rightarrow> 'k \<Rightarrow> error + ('k \<times> 'v) list" where
  "dict_del d k = (if dict_contains k d then Inr (dict_remove d k) else Inl KeyNotFound)"

text \<open>Strings and integers are hashable, dictionaries are not.\<close>

fun hashable :: "pyval \<Rightarrow> bool" where
  "hashable (PStr s) = True"
| "hashable (PInt i) = True"
| "hashable (PDict d) = False"

section \<open>DataRow\<close>

record datarow =
  row_id :: int
  row_data :: "(string \<times> pyval) list"

text \<open>\<open>DataRow.__getitem__\<close>, \<open>__setitem__\<close>, \<open>__iter__\<close>\<close>

definition DataRow_getitem :: "datarow \<Rightarrow> string \<Rightarrow> error + pyval" where
  "DataRow_getitem r key =
     (case dict_get (row_data r) key of None \<Rightarrow> Inl KeyNotFound | Some v \<Rightarrow> Inr v)"

definition DataRow_setitem :: "datarow \<Rightarrow> string \<Rightarrow> pyval \<Rightarrow> datarow" where
  "DataRow_setitem r key val = r\<lparr>row_data := dict_set (row_data r) key val\<rparr>"

definition DataRow_iter :: "datarow \<Rightarrow> string list" where
  "DataRow_iter r = dict_keys (row_data r)"

text \<open>
  \<open>DataRow.name\<close>: \<open>self['name'][lang_id]\<close>. Subscripting a string or an integer with a
  string raises \<open>TypeError\<close>.
\<close>

definition DataRow_name :: "datarow \<Rightarrow> string \<Rightarrow> error + pyval" where
  "DataRow_name r lang_id =
     (case DataRow_getitem r ''name'' of
        Inl e \<Rightarrow> Inl e
      | Inr (PDict d) \<Rightarrow>
          (case dict_get d lang_id of None \<Rightarrow> Inl KeyNotFound | Some n \<Rightarrow> Inr n)
      | Inr (PStr s) \<Rightarrow> Inl TypeError
      | Inr (PInt i) \<Rightarrow> Inl TypeError)"

text \<open>
  \<open>DataRow.names\<close>: the items of \<open>self['name']\<close>, in order. A string or an integer has no
  \<open>items\<close> attribute.
\<close>

definition DataRow_names :: "datarow \<Rightarrow> error + (string \<times> pyval) list" where
  "DataRow_names r =
     (case DataRow_getitem r ''name'' of
        Inl e \<Rightarrow> Inl e
      | Inr (PDict d) \<Rightarrow> Inr d
      | Inr (PStr s) \<Rightarrow> Inl AttributeError
      | Inr (PInt i) \<Rightarrow> Inl AttributeError)"

text \<open>
  \<open>DataRow.set_value\<close>. The first loop collects the keys that follow \<open>after\<close>
  (\<open>found_item\<close> is the flag, \<open>keys_to_move\<close> the accumulator); the second loop moves
  each of them to the end: read, delete, set again.
\<close>

fun collect_keys_to_move :: "string list \<Rightarrow> string \<Rightarrow> bool \<Rightarrow> string list \<Rightarrow> string list" where
  "collect_keys_to_move [] after found_item keys_to_move = keys_to_move"
| "collect_keys_to_move (item_key # rest) after found_item keys_to_move =
     (if found_item then collect_keys_to_move rest after True (keys_to_move @ [item_key])
      else if item_key = after then collect_keys_to_move rest after True keys_to_move
      else collect_keys_to_move rest after False keys_to_move)"

fun move_keys_to_end :: "string list \<Rightarrow> (string \<times> pyval) list \<Rightarrow> error + (string \<times> pyval) list" where
  "move_keys_to_end [] d = Inr d"
| "move_keys_to_end (item_key # rest) d =
     (case dict_get d item_key of
        None \<Rightarrow> Inl KeyNotFound
      | Some val \<Rightarrow>
          (case dict_del d item_key of
             Inl e \<Rightarrow> Inl e
           | Inr d' \<Rightarrow> move_keys_to_end rest (dict_set d' item_key val)))"

definition DataRow_set_value :: "datarow \<Rightarrow> string \<Rightarrow> pyval \<Rightarrow> string \<Rightarrow> error + datarow" where
  "DataRow_set_value r key val after =
     (if after = [] then Inr (DataRow_setitem r key val)
      else
        let keys_to_move = collect_keys_to_move (dict_keys (row_data r)) after False [];
            r1 = DataRow_setitem r key val
        in (case move_keys_to_end keys_to_move (row_data r1) of
              Inl e \<Rightarrow> Inl e
            | Inr d \<Rightarrow> Inr (r1\<lparr>row_data := d\<rparr>)))"

section \<open>DataMap\<close>

text \<open>
  \<open>_data\<close> is the ordered dictionary of rows, \<open>_reverse_entries\<close> the dictionary from
  (language, name) to identifier, \<open>id_gen\<close> the next value that \<open>itertools.count\<close> will
  yield, \<open>last_id\<close> the field \<open>_last_id\<close>.
\<close>

record datamap =
  data :: "(int \<times> datarow) list"
  reverse_entries :: "((string \<times> pyval) \<times> int) list"
  id_gen :: int
  last_id :: int

text \<open>\<open>DataMap()\<close> with no initial data.\<close>

definition DataMap_empty :: datamap where
  "DataMap_empty = \<lparr>data = [], reverse_entries = [], id_gen = 1, last_id = 0\<rparr>"

text \<open>
  \<open>DataMap.id_of\<close>: building the key \<open>(language_code, name)\<close> for the lookup hashes the
  name; an unhashable name raises \<open>TypeError\<close>.
\<close>

definition DataMap_id_of :: "datamap \<Rightarrow> string \<Rightarrow> pyval \<Rightarrow> error + int option" where
  "DataMap_id_of s language_code name =
     (if hashable name then Inr (dict_get (reverse_entries s) (language_code, name))
      else Inl TypeError)"

text \<open>
  \<open>DataMap.entry_of\<close>: the exception of \<open>id_of\<close> propagates;
  \<open>self._data.get(None, None)\<close> is \<open>None\<close>, since no row has the key \<open>None\<close>.
\<close>

definition DataMap_entry_of :: "datamap \<Rightarrow> string \<Rightarrow> pyval \<Rightarrow> error + datarow option" where
  "DataMap_entry_of s language_code name =
     (case DataMap_id_of s language_code name of
        Inl e \<Rightarrow> Inl e
      | Inr None \<Rightarrow> Inr None
      | Inr (Some id_value) \<Rightarrow> Inr (dict_get (data s) id_value))"

definition DataMap_generate_id :: "datamap \<Rightarrow> int \<times> datamap" where
  "DataMap_generate_id s =
     (let entry_id = id_gen s
      in (entry_id, s\<lparr>id_gen := entry_id + 1, last_id := entry_id\<rparr>))"

text \<open>
  The loop of \<open>_add_entry\<close> over the names of the new row. Storing under the key
  \<open>(lang, name)\<close> hashes the name; an unhashable name raises \<open>TypeError\<close> and keeps the
  entries written so far.
\<close>

fun add_reverse_entries ::
  "(string \<times> pyval) list \<Rightarrow> int \<Rightarrow> ((string \<times> pyval) \<times> int) list
     \<Rightarrow> error option \<times> ((string \<times> pyval) \<times> int) list" where
  "add_reverse_entries [] entry_id rvs = (None, rvs)"
| "add_reverse_entries ((lang, name) # rest) entry_id rvs =
     (if hashable name then add_reverse_entries rest entry_id (dict_set rvs (lang, name) entry_id)
      else (Some TypeError, rvs))"

text \<open>\<open>DataMap._add_entry\<close>: the result or the exception, and the state left behind.\<close>

definition DataMap_add_entry_internal ::
  "datamap \<Rightarrow> int \<Rightarrow> (string \<times> pyval) list \<Rightarrow> (error + datarow) \<times> datamap" where
  "DataMap_add_entry_internal s entry_id entry =
     (if \<not> dict_contains ''name'' entry then (Inl MissingField, s)
      else if dict_contains entry_id (data s) then (Inl DuplicateKey, s)
      else
        let new_entry = \<lparr>row_id = entry_id, row_data = entry\<rparr>
        in (case DataRow_names new_entry of
              Inl e \<Rightarrow> (Inl e, s)
            | Inr ns \<Rightarrow>
                (case add_reverse_entries ns entry_id (reverse_entries s) of
                   (Some e, rvs) \<Rightarrow> (Inl e, s\<lparr>reverse_entries := rvs\<rparr>)
                 | (None, rvs) \<Rightarrow>
                     (Inr new_entry,
                      s\<lparr>reverse_entries := rvs,
                        data := dict_set (data s) entry_id new_entry\<rparr>))))"

text \<open>\<open>DataMap.add_entry\<close>: the generator is reset before \<open>_add_entry\<close> runs its checks.\<close>

definition DataMap_add_entry ::
  "datamap \<Rightarrow> int \<Rightarrow> (string \<times> pyval) list \<Rightarrow> (error + datarow) \<times> datamap" where
  "DataMap_add_entry s entry_id entry =
     (let s1 = (if entry_id > last_id s
                then s\<lparr>id_gen := entry_id + 1, last_id := entry_id\<rparr> else s)
      in DataMap_add_entry_internal s1 entry_id entry)"

text \<open>\<open>DataMap.insert\<close>: takes the next identifier from the generator directly.\<close>

definition DataMap_insert ::
  "datamap \<Rightarrow> (string \<times> pyval) list \<Rightarrow> (error + datarow) \<times> datamap" where
  "DataMap_insert s entry =
     (let entry_id = id_gen s; s1 = s\<lparr>id_gen := entry_id + 1\<rparr>
      in DataMap_add_entry_internal s1 entry_id entry)"

text \<open>\<open>DataMap.__iter__\<close> and \<open>Mapping.values\<close>: the keys, and the rows, in insertion order.\<close>

definition DataMap_iter :: "datamap \<Rightarrow> int list" where
  "DataMap_iter s = dict_keys (data s)"

definition DataMap_values :: "datamap \<Rightarrow> datarow list" where
  "DataMap_values s = map snd (data s)"

section \<open>NameSet\<close>

record nameset =
  backing_map :: datamap
  language_code :: string

definition DataMap_names :: "datamap \<Rightarrow> string \<Rightarrow> nameset" where
  "DataMap_names s lang = \<lparr>backing_map = s, language_code = lang\<rparr>"

text \<open>
  \<open>NameSet.__iter__\<close> is a generator. Its run is the list of the values it yields, in
  order, and the exception that ends it, if one does (\<open>None\<close>: it ends normally).
\<close>

fun yield_names :: "datarow list \<Rightarrow> string \<Rightarrow> pyval list \<times> error option" where
  "yield_names [] lang = ([], None)"
| "yield_names (row # rows) lang =
     (case DataRow_name row lang of
        Inl e \<Rightarrow> ([], Some e)
      | Inr n \<Rightarrow> (case yield_names rows lang of (ys, r) \<Rightarrow> (n # ys, r)))"

definition NameSet_iter :: "nameset \<Rightarrow> pyval list \<times> error option" where
  "NameSet_iter ns = yield_names (DataMap_values (backing_map ns)) (language_code ns)"

section \<open>Sequences of calls\<close>

text \<open>
  A caller's sequence of \<open>insert\<close> and \<open>add_entry\<close> calls, each exception caught by the
  caller: the results in order and the final state.
\<close>

datatype call = Insert "(string \<times> pyval) list" | AddEntry int "(string \<times> pyval) list"

fun do_call :: "datamap \<Rightarrow> call \<Rightarrow> (error + datarow) \<times> datamap" where
  "do_call s (Insert entry) = DataMap_insert s entry"
| "do_call s (AddEntry entry_id entry) = DataMap_add_entry s entry_id entry"

fun run_calls :: "datamap \<Rightarrow> call list \<Rightarrow> (error + datarow) list \<times> datamap" where
  "run_calls s [] = ([], s)"
| "run_calls s (c # cs) =
     (case do_call s c of (res, s1) \<Rightarrow>
        (case run_calls s1 cs of (ress, s2) \<Rightarrow> (res # ress, s2)))"

text \<open>
  The identifier each call asks for: the argument of \<open>add_entry\<close>, and for \<open>insert\<close> the
  value the generator yields when the call is made.
\<close>

fun call_id :: "datamap \<Rightarrow> call \<Rightarrow> int" where
  "call_id s (Insert entry) = id_gen s"
| "call_id s (AddEntry entry_id entry) = entry_id"

fun ids_asked :: "datamap \<Rightarrow> call list \<Rightarrow> int list" where
  "ids_asked s [] = []"
| "ids_asked s (c # cs) = call_id s c # ids_asked (snd (do_call s c)) cs"

text \<open>The rows returned by the calls that succeeded, in call order.\<close>

fun successes :: "(error + datarow) list \<Rightarrow> datarow list" where
  "successes [] = []"
| "successes (Inl e # ress) = successes ress"
| "successes (Inr r # ress) = r # successes ress"

section \<open>Example data\<close>

text \<open>
  Raw field dictionaries, maps reached from the empty map by the calls named in their
  definitions, and rows for \<open>set_value\<close>.
\<close>

definition fire_entry :: "(string \<times> pyval) list" where
  "fire_entry = [(''name'', PDict [(''en'', PStr ''Fire''), (''ja'', PStr ''Hi'')]), (''rarity'', PInt 3)]"

definition ice_entry :: "(string \<times> pyval) list" where
  "ice_entry = [(''name'', PDict [(''en'', PStr ''Ice'')])]"

definition no_name_entry :: "(string \<times> pyval) list" where
  "no_name_entry = [(''rarity'', PInt 7)]"

definition store_one :: datamap where
  "store_one = snd (DataMap_insert DataMap_empty fire_entry)"

definition store_five :: datamap where
  "store_five = snd (DataMap_add_entry DataMap_empty 5 fire_entry)"

definition fire_again_entry :: "(string \<times> pyval) list" where
  "fire_again_entry = [(''name'', PDict [(''en'', PStr ''Fire'')]), (''rarity'', PInt 9)]"

definition water_entry :: "(string \<times> pyval) list" where
  "water_entry = [(''name'', PDict [(''en'', PStr ''Water'')])]"

definition store_two :: datamap where
  "store_two = snd (DataMap_insert store_one ice_entry)"

definition store_two_after_duplicate :: datamap where
  "store_two_after_duplicate = snd (DataMap_add_entry store_two 1 water_entry)"

definition abcd_row :: datarow where
  "abcd_row = \<lparr>row_id = 1,
     row_data = [(''a'', PInt 1), (''b'', PInt 2), (''c'', PInt 3), (''d'', PInt 4)]\<rparr>"

definition empty_key_row :: datarow where
  "empty_key_row = \<lparr>row_id = 1, row_data = [('''', PInt 1), (''b'', PInt 2)]\<rparr>"

section \<open>Lemmas about dictionaries and the insertion path\<close>

subsection \<open>Dictionary assignment\<close>

lemma map_of_dict_set: "map_of (dict_set d k v) = (map_of d)(k \<mapsto> v)"
  by (induction d) auto

lemma dict_set_fresh: "k \<notin> set (dict_keys d) \<Longrightarrow> dict_set d k v = d @ [(k, v)]"
  by (induction d) (auto simp: dict_keys_def)

lemma dict_keys_dict_set:
  "dict_keys (dict_set d k v) = (if k \<in> set (dict_keys d) then dict_keys d else dict_keys d @ [k])"
  by (induction d) (force simp: dict_keys_def)+

subsection \<open>The insertion path\<close>

lemma add_reverse_entries_lookup:
  "add_reverse_entries ns i rv = (None, rv') \<Longrightarrow>
     map_of rv' k = (if k \<in> set ns then Some i else map_of rv k)"
proof (induction ns arbitrary: rv)
  case Nil
  then show ?case by simp
next
  case (Cons p ns)
  obtain lang name where p: "p = (lang, name)" by (cases p)
  from Cons.prems p have h: "hashable name"
    and rec: "add_reverse_entries ns i (dict_set rv (lang, name) i) = (None, rv')"
    by (auto split: if_splits)
  from Cons.IH [OF rec] show ?case
    by (auto simp: p map_of_dict_set)
qed

lemma add_reverse_entries_names_hashable:
  "add_reverse_entries ns i rv = (None, rv') \<Longrightarrow> (lang, name) \<in> set ns \<Longrightarrow> hashable name"
  by (induction ns arbitrary: rv) (auto split: if_splits)

lemma add_entry_internal_success:
  assumes "DataMap_add_entry_internal s i e = (Inr r, s')"
  shows "\<exists>ns rv'. r = \<lparr>row_id = i, row_data = e\<rparr> \<and> DataRow_names r = Inr ns
           \<and> \<not> dict_contains i (data s)
           \<and> add_reverse_entries ns i (reverse_entries s) = (None, rv')
           \<and> s' = s\<lparr>reverse_entries := rv', data := dict_set (data s) i r\<rparr>"
  using assms
  by (auto simp: DataMap_add_entry_internal_def Let_def split: if_splits sum.splits prod.splits option.splits)

lemma add_entry_internal_row_id:
  "DataMap_add_entry_internal s i e = (Inr r, s') \<Longrightarrow> row_id r = i"
  by (drule add_entry_internal_success) auto

lemma do_call_success:
  assumes "do_call s c = (Inr r, s')"
  shows "\<exists>s1 e. DataMap_add_entry_internal s1 (row_id r) e = (Inr r, s')"
proof (cases c)
  case (Insert e)
  with assms have h: "DataMap_add_entry_internal (s\<lparr>id_gen := id_gen s + 1\<rparr>) (id_gen s) e = (Inr r, s')"
    by (simp add: DataMap_insert_def Let_def)
  from add_entry_internal_row_id [OF h] h
  have "DataMap_add_entry_internal (s\<lparr>id_gen := id_gen s + 1\<rparr>) (row_id r) e = (Inr r, s')"
    by simp
  then show ?thesis by (intro exI)
next
  case (AddEntry i e)
  with assms obtain s1 where h: "DataMap_add_entry_internal s1 i e = (Inr r, s')"
    by (simp add: DataMap_add_entry_def Let_def)
  from add_entry_internal_row_id [OF h] h
  have "DataMap_add_entry_internal s1 (row_id r) e = (Inr r, s')"
    by simp
  then show ?thesis by (intro exI)
qed

subsection \<open>The example maps\<close>

lemmas eval_defs =
  DataMap_insert_def DataMap_add_entry_def DataMap_empty_def DataMap_add_entry_internal_def
  dict_contains_def dict_keys_def DataRow_names_def DataRow_getitem_def dict_get_def Let_def
  fire_entry_def ice_entry_def no_name_entry_def

lemma store_one_eq:
  "store_one = \<lparr>data = [(1, \<lparr>row_id = 1, row_data = fire_entry\<rparr>)],
       reverse_entries = [((''en'', PStr ''Fire''), 1), ((''ja'', PStr ''Hi''), 1)],
       id_gen = 2, last_id = 0\<rparr>"
  by (simp add: store_one_def eval_defs)

lemma store_five_eq:
  "store_five = \<lparr>data = [(5, \<lparr>row_id = 5, row_data = fire_entry\<rparr>)],
       reverse_entries = [((''en'', PStr ''Fire''), 5), ((''ja'', PStr ''Hi''), 5)],
       id_gen = 6, last_id = 5\<rparr>"
  by (simp add: store_five_def eval_defs)

subsection \<open>Rejected and accepted insertions\<close>

lemma add_entry_internal_duplicate:
  assumes "dict_contains entry_id (data s)"
  shows "DataMap_add_entry_internal s entry_id entry =
           (Inl (if dict_contains ''name'' entry then DuplicateKey else MissingField), s)"
  using assms by (simp add: DataMap_add_entry_internal_def)

lemma add_reverse_entries_hashable:
  "\<forall>(l, n) \<in> set ns. hashable n \<Longrightarrow> \<exists>rv'. add_reverse_entries ns i rv = (None, rv')"
  by (induction ns arbitrary: rv) auto

lemma add_entry_internal_fresh:
  assumes ns: "DataRow_names \<lparr>row_id = entry_id, row_data = entry\<rparr> = Inr ns"
    and hs: "\<forall>(l, n) \<in> set ns. hashable n"
    and fresh: "\<not> dict_contains entry_id (data s)"
  shows "\<exists>rv'. add_reverse_entries ns entry_id (reverse_entries s) = (None, rv') \<and>
           DataMap_add_entry_internal s entry_id entry =
             (Inr \<lparr>row_id = entry_id, row_data = entry\<rparr>,
              s\<lparr>reverse_entries := rv',
                data := data s @ [(entry_id, \<lparr>row_id = entry_id, row_data = entry\<rparr>)]\<rparr>)"
proof -
  from add_reverse_entries_hashable [OF hs] obtain rv'
    where rv: "add_reverse_entries ns entry_id (reverse_entries s) = (None, rv')" by blast
  from ns obtain v where "map_of entry ''name'' = Some v"
    by (auto simp: DataRow_names_def DataRow_getitem_def dict_get_def split: option.splits)
  then have "(''name'', v) \<in> set entry" by (rule map_of_SomeD)
  then have name: "dict_contains ''name'' entry"
    by (force simp: dict_contains_def dict_keys_def)
  from fresh have "dict_set (data s) entry_id \<lparr>row_id = entry_id, row_data = entry\<rparr>
      = data s @ [(entry_id, \<lparr>row_id = entry_id, row_data = entry\<rparr>)]"
    by (simp add: dict_contains_def dict_set_fresh)
  with rv ns name fresh show ?thesis
    by (simp add: DataMap_add_entry_internal_def Let_def)
qed

lemma colliding_name_internal:
  assumes ns: "DataRow_names \<lparr>row_id = entry_id, row_data = entry\<rparr> = Inr ns"
    and hs: "\<forall>(l, n) \<in> set ns. hashable n"
    and fresh: "\<not> dict_contains entry_id (data s)"
    and mem: "(lang, name) \<in> set ns"
    and old: "dict_get (data s) old_id = Some old_row"
  shows "\<exists>r s'. DataMap_add_entry_internal s entry_id entry = (Inr r, s') \<and>
           r = \<lparr>row_id = entry_id, row_data = entry\<rparr> \<and>
           DataMap_id_of s' lang name = Inr (Some entry_id) \<and>
           DataMap_entry_of s' lang name = Inr (Some r) \<and>
           dict_get (data s') old_id = Some old_row"
proof -
  from add_entry_internal_fresh [OF ns hs fresh] obtain rv'
    where rv: "add_reverse_entries ns entry_id (reverse_entries s) = (None, rv')"
      and res: "DataMap_add_entry_internal s entry_id entry =
             (Inr \<lparr>row_id = entry_id, row_data = entry\<rparr>,
              s\<lparr>reverse_entries := rv',
                data := data s @ [(entry_id, \<lparr>row_id = entry_id, row_data = entry\<rparr>)]\<rparr>)"
    by blast
  from fresh have none: "map_of (data s) entry_id = None"
    by (simp add: dict_contains_def dict_keys_def map_of_eq_None_iff)
  have idof: "map_of rv' (lang, name) = Some entry_id"
    using add_reverse_entries_lookup [OF rv, of "(lang, name)"] mem by simp
  have h: "hashable name"
    by (rule add_reverse_entries_names_hashable [OF rv mem])
  show ?thesis
    using res idof old none h
    by (simp add: DataMap_id_of_def DataMap_entry_of_def dict_get_def map_add_def)
qed

subsection \<open>Keys after a call\<close>

lemma do_call_iter:
  "DataMap_iter (snd (do_call s c)) = DataMap_iter s @ map row_id (successes [fst (do_call s c)])"
proof -
  have internal: "DataMap_iter (snd (DataMap_add_entry_internal s1 i e)) =
      DataMap_iter s1 @ map row_id (successes [fst (DataMap_add_entry_internal s1 i e)])" for s1 i e
    by (auto simp: DataMap_add_entry_internal_def DataMap_iter_def Let_def dict_keys_dict_set
        dict_contains_def split: sum.splits prod.splits option.splits)
  show ?thesis
  proof (cases c)
    case (Insert e)
    then show ?thesis
      using internal [of "s\<lparr>id_gen := id_gen s + 1\<rparr>" "id_gen s" e]
      by (simp add: DataMap_insert_def Let_def DataMap_iter_def)
  next
    case (AddEntry i e)
    then show ?thesis
      using internal [of s i e] internal [of "s\<lparr>id_gen := i + 1, last_id := i\<rparr>" i e]
      by (simp add: DataMap_add_entry_def Let_def DataMap_iter_def)
  qed
qed

lemma successes_append: "successes (xs @ ys) = successes xs @ successes ys"
  by (induction xs rule: successes.induct) auto

lemma iter_after_run_calls:
  "DataMap_iter (snd (run_calls s cs)) =
     DataMap_iter s @ map row_id (successes (fst (run_calls s cs)))"
proof (induction cs arbitrary: s)
  case Nil
  then show ?case by simp
next
  case (Cons c cs)
  obtain res s1 where c: "do_call s c = (res, s1)" by (cases "do_call s c")
  obtain ress s2 where cs: "run_calls s1 cs = (ress, s2)" by (cases "run_calls s1 cs")
  from do_call_iter [of s c] c have one: "DataMap_iter s1 = DataMap_iter s @ map row_id (successes [res])"
    by simp
  from Cons.IH [of s1] cs have "DataMap_iter s2 = DataMap_iter s1 @ map row_id (successes ress)"
    by simp
  with one have "DataMap_iter s2 = DataMap_iter s @ map row_id (successes ([res] @ ress))"
    by (simp only: successes_append map_append append_assoc)
  with c cs show ?case by simp
qed

lemma do_call_row_id:
  assumes "do_call s c = (Inr r, s')"
  shows "row_id r = call_id s c"
proof (cases c)
  case (Insert e)
  with assms have "DataMap_add_entry_internal (s\<lparr>id_gen := id_gen s + 1\<rparr>) (id_gen s) e = (Inr r, s')"
    by (simp add: DataMap_insert_def Let_def)
  from add_entry_internal_row_id [OF this] Insert show ?thesis by simp
next
  case (AddEntry i e)
  with assms obtain s1 where "DataMap_add_entry_internal s1 i e = (Inr r, s')"
    by (simp add: DataMap_add_entry_def Let_def)
  from add_entry_internal_row_id [OF this] AddEntry show ?thesis by simp
qed

lemma successful_rows_have_ids_asked:
  "run_calls s cs = (ress, s') \<Longrightarrow> \<forall>res \<in> set ress. \<exists>r. res = Inr r \<Longrightarrow>
     map row_id (successes ress) = ids_asked s cs"
proof (induction cs arbitrary: s ress s')
  case Nil
  then show ?case by auto
next
  case (Cons c cs)
  obtain res s1 where c: "do_call s c = (res, s1)" by (cases "do_call s c")
  obtain ress1 s2 where cs: "run_calls s1 cs = (ress1, s2)" by (cases "run_calls s1 cs")
  from Cons.prems(1) c cs have ress: "ress = res # ress1" by simp
  with Cons.prems(2) obtain r where r: "res = Inr r" and all: "\<forall>res \<in> set ress1. \<exists>r. res = Inr r"
    by auto
  from do_call_row_id [of s c r s1] c r have id: "row_id r = call_id s c" by simp
  from Cons.IH [OF cs all] have "map row_id (successes ress1) = ids_asked s1 cs" .
  with id c r ress show ?case by simp
qed

lemma store_two_eq:
  "store_two = \<lparr>data = [(1, \<lparr>row_id = 1, row_data = fire_entry\<rparr>), (2, \<lparr>row_id = 2, row_data = ice_entry\<rparr>)],
       reverse_entries = [((''en'', PStr ''Fire''), 1), ((''ja'', PStr ''Hi''), 1), ((''en'', PStr ''Ice''), 2)],
       id_gen = 3, last_id = 0\<rparr>"
  by (simp add: store_two_def store_one_eq eval_defs)

lemma store_two_after_duplicate_eq:
  "store_two_after_duplicate = store_two\<lparr>id_gen := 2, last_id := 1\<rparr>"
  by (simp add: store_two_after_duplicate_def store_two_eq eval_defs water_entry_def)

subsection \<open>The generator\<close>

lemma add_entry_internal_generator:
  "id_gen (snd (DataMap_add_entry_internal s i e)) = id_gen s \<and>
   last_id (snd (DataMap_add_entry_internal s i e)) = last_id s"
  by (simp add: DataMap_add_entry_internal_def Let_def split: sum.splits prod.splits option.splits)

lemma generator_stays_above_last_id:
  assumes "last_id s < id_gen s"
  shows "last_id (snd (do_call s c)) < id_gen (snd (do_call s c))"
proof (cases c)
  case (Insert e)
  with assms show ?thesis
    by (simp add: DataMap_insert_def Let_def add_entry_internal_generator)
next
  case (AddEntry i e)
  with assms show ?thesis
    by (simp add: DataMap_add_entry_def Let_def add_entry_internal_generator)
qed

lemma insert_agrees_with_add_entry_up_to_last_id:
  assumes "last_id s < id_gen s"
  shows "fst (DataMap_insert s e) = fst (DataMap_add_entry s (id_gen s) e) \<and>
         snd (DataMap_add_entry s (id_gen s) e) = (snd (DataMap_insert s e))\<lparr>last_id := id_gen s\<rparr> \<and>
         id_gen (snd (DataMap_insert s e)) = id_gen s + 1"
  using assms
  by (simp add: DataMap_insert_def DataMap_add_entry_def DataMap_add_entry_internal_def Let_def
      split: sum.splits prod.splits option.splits)

subsection \<open>Names in one language\<close>

lemma name_of_translations:
  "DataRow_names row = Inr ns \<Longrightarrow>
     DataRow_name row lang = (case dict_get ns lang of None \<Rightarrow> Inl KeyNotFound | Some n \<Rightarrow> Inr n)"
  by (auto simp: DataRow_names_def DataRow_name_def split: sum.splits pyval.splits)

lemma yield_names_prefix:
  assumes "\<forall>row \<in> set pre. \<exists>ns n. DataRow_names row = Inr ns \<and> dict_get ns lang = Some n"
  shows "\<exists>ys. yield_names (pre @ post) lang = (ys @ fst (yield_names post lang), snd (yield_names post lang))
            \<and> map Inr ys = map (\<lambda>row. DataRow_name row lang) pre"
  using assms
proof (induction pre)
  case Nil
  then show ?case by simp
next
  case (Cons row pre)
  from Cons.prems obtain ns n where ns: "DataRow_names row = Inr ns" and n: "dict_get ns lang = Some n"
    by auto
  from name_of_translations [OF ns, of lang] n have nm: "DataRow_name row lang = Inr n" by simp
  from Cons.IH Cons.prems obtain ys
    where ys: "yield_names (pre @ post) lang = (ys @ fst (yield_names post lang), snd (yield_names post lang))"
      and m: "map Inr ys = map (\<lambda>row. DataRow_name row lang) pre"
    by auto
  have "yield_names ((row # pre) @ post) lang
          = ((n # ys) @ fst (yield_names post lang), snd (yield_names post lang))"
    using nm ys by simp
  moreover have "map Inr (n # ys) = map (\<lambda>row. DataRow_name row lang) (row # pre)"
    using nm m by simp
  ultimately show ?case by blast
qed

subsection \<open>The two loops of \<open>set_value\<close>\<close>

lemmas row_eval_defs =
  DataRow_set_value_def DataRow_setitem_def DataRow_iter_def dict_keys_def dict_get_def
  dict_del_def dict_contains_def Let_def

lemma collect_after_found:
  "collect_keys_to_move ks after True acc = acc @ ks"
  by (induction ks arbitrary: acc) auto

lemma collect_anchor_absent:
  "after \<notin> set ks \<Longrightarrow> collect_keys_to_move ks after False acc = acc"
  by (induction ks) auto

lemma collect_at_anchor:
  "after \<notin> set pre \<Longrightarrow> collect_keys_to_move (pre @ after # post) after False acc = acc @ post"
  by (induction pre) (auto simp: collect_after_found)

lemma dict_get_append_absent:
  "k \<notin> set (dict_keys X) \<Longrightarrow> dict_get (X @ Z) k = dict_get Z k"
  by (induction X) (auto simp: dict_get_def dict_keys_def)

lemma dict_remove_append_absent:
  "k \<notin> set (dict_keys X) \<Longrightarrow> dict_remove (X @ (k, v) # Z) k = X @ Z"
  by (induction X) (auto simp: dict_keys_def)

lemma move_block_to_end:
  "distinct (dict_keys (X @ P @ Y)) \<Longrightarrow>
     move_keys_to_end (dict_keys P) (X @ P @ Y) = Inr (X @ Y @ P)"
proof (induction P arbitrary: Y)
  case Nil
  then show ?case by (simp add: dict_keys_def)
next
  case (Cons p P)
  obtain k v where p: "p = (k, v)" by (cases p)
  from Cons.prems p have kX: "k \<notin> set (dict_keys X)" and kP: "k \<notin> set (dict_keys P)"
    and kY: "k \<notin> set (dict_keys Y)"
    by (auto simp: dict_keys_def)
  have get: "dict_get (X @ (k, v) # P @ Y) k = Some v"
    using dict_get_append_absent [OF kX, of "(k, v) # P @ Y"] by (simp add: dict_get_def)
  have has: "dict_contains k (X @ (k, v) # P @ Y)"
    by (simp add: dict_contains_def dict_keys_def)
  have del: "dict_del (X @ (k, v) # P @ Y) k = Inr (X @ P @ Y)"
    using has dict_remove_append_absent [OF kX, of v "P @ Y"] by (simp add: dict_del_def)
  have "k \<notin> set (dict_keys (X @ P @ Y))"
    using kX kP kY by (simp add: dict_keys_def)
  then have set: "dict_set (X @ P @ Y) k v = X @ P @ (Y @ [(k, v)])"
    by (simp add: dict_set_fresh)
  have "distinct (dict_keys (X @ P @ (Y @ [(k, v)])))"
    using Cons.prems p by (auto simp: dict_keys_def)
  from Cons.IH [OF this] have "move_keys_to_end (dict_keys P) (X @ P @ (Y @ [(k, v)])) = Inr (X @ Y @ (k, v) # P)"
    by simp
  with get del set p show ?case
    by (simp add: dict_keys_def)
qed

lemma set_value_fresh_key:
  assumes d: "row_data r = dpre @ (after, va) # dpost"
    and dist: "distinct (DataRow_iter r)"
    and ne: "after \<noteq> []"
    and fresh: "key \<notin> set (DataRow_iter r)"
  shows "DataRow_set_value r key val after =
           Inr (r\<lparr>row_data := dpre @ (after, va) # (key, val) # dpost\<rparr>)"
proof -
  from d dist have a: "after \<notin> set (map fst dpre)"
    by (auto simp: DataRow_iter_def dict_keys_def)
  have ktm: "collect_keys_to_move (dict_keys (row_data r)) after False [] = dict_keys dpost"
    using collect_at_anchor [OF a, of "map fst dpost" "[]"] by (simp add: d dict_keys_def)
  from fresh have set: "dict_set (row_data r) key val = (dpre @ [(after, va)]) @ dpost @ [(key, val)]"
    by (simp add: DataRow_iter_def dict_set_fresh d)
  have "distinct (dict_keys ((dpre @ [(after, va)]) @ dpost @ [(key, val)]))"
    using dist fresh by (auto simp: DataRow_iter_def dict_keys_def d)
  from move_block_to_end [OF this]
  have "move_keys_to_end (dict_keys dpost) ((dpre @ [(after, va)]) @ dpost @ [(key, val)])
          = Inr (dpre @ (after, va) # (key, val) # dpost)"
    by simp
  with ktm set ne show ?thesis
    by (simp add: DataRow_set_value_def DataRow_setitem_def Let_def)
qed

lemma set_value_present_key:
  assumes d: "row_data r = dpre @ (after, va) # dpost"
    and dist: "distinct (DataRow_iter r)"
    and ne: "after \<noteq> []"
    and present: "key \<in> set (DataRow_iter r)"
  shows "DataRow_set_value r key val after = Inr (DataRow_setitem r key val)"
proof -
  define d' where "d' = dict_set (row_data r) key val"
  define n where "n = Suc (length dpre)"
  from d dist have a: "after \<notin> set (map fst dpre)"
    by (auto simp: DataRow_iter_def dict_keys_def)
  have ktm: "collect_keys_to_move (dict_keys (row_data r)) after False [] = map fst dpost"
    using collect_at_anchor [OF a, of "map fst dpost" "[]"] by (simp add: d dict_keys_def)
  from present have keys: "map fst d' = map fst (row_data r)"
    using dict_keys_dict_set [of "row_data r" key val]
    by (simp add: d'_def DataRow_iter_def dict_keys_def)
  have "map fst (drop n d') = drop n (map fst d')" by (simp add: drop_map)
  also have "\<dots> = map fst dpost" by (simp add: keys d n_def)
  finally have P: "dict_keys (drop n d') = map fst dpost" by (simp add: dict_keys_def)
  have "distinct (dict_keys (take n d' @ drop n d' @ []))"
    using dist keys by (simp add: DataRow_iter_def dict_keys_def)
  from move_block_to_end [OF this] P
  have "move_keys_to_end (map fst dpost) d' = Inr d'" by simp
  with ktm ne show ?thesis
    by (simp add: DataRow_set_value_def DataRow_setitem_def Let_def d'_def)
qed

section \<open>Reverse-index consistency\<close>

text \<open>
  C3. A call of \<open>insert\<close> or \<open>add_entry\<close> that returns a row \<open>r\<close> leaves the map in a
  state where every (language, name) pair of \<open>r\<close>'s name translations resolves to \<open>r\<close>:
  \<open>entry_of\<close> returns exactly \<open>r\<close> and \<open>id_of\<close> returns the identifier of \<open>r\<close>.
\<close>

theorem fresh_record_reachable_by_every_name:
  assumes "do_call s c = (Inr r, s')"
  shows "\<exists>ns. DataRow_names r = Inr ns \<and>
           (\<forall>(lang, name) \<in> set ns.
              DataMap_entry_of s' lang name = Inr (Some r) \<and>
              DataMap_id_of s' lang name = Inr (Some (row_id r)))"
proof -
  from do_call_success [OF assms] obtain s1 e
    where ok: "DataMap_add_entry_internal s1 (row_id r) e = (Inr r, s')" by blast
  from add_entry_internal_success [OF ok] obtain ns rv'
    where ns: "DataRow_names r = Inr ns"
      and rv: "add_reverse_entries ns (row_id r) (reverse_entries s1) = (None, rv')"
      and s': "s' = s1\<lparr>reverse_entries := rv', data := dict_set (data s1) (row_id r) r\<rparr>"
    by blast
  have "DataMap_id_of s' lang name = Inr (Some (row_id r)) \<and> DataMap_entry_of s' lang name = Inr (Some r)"
    if "(lang, name) \<in> set ns" for lang name
  proof -
    have idof: "DataMap_id_of s' lang name = Inr (Some (row_id r))"
      using add_reverse_entries_lookup [OF rv, of "(lang, name)"]
        add_reverse_entries_names_hashable [OF rv that] that
      by (simp add: DataMap_id_of_def dict_get_def s')
    then show ?thesis
      by (simp add: DataMap_entry_of_def dict_get_def s' map_of_dict_set)
  qed
  with ns show ?thesis by blast
qed

theorem fresh_record_reachable_by_every_name_witness:
  "do_call DataMap_empty (Insert fire_entry) =
     (Inr \<lparr>row_id = 1, row_data = fire_entry\<rparr>,
      \<lparr>data = [(1, \<lparr>row_id = 1, row_data = fire_entry\<rparr>)],
       reverse_entries = [((''en'', PStr ''Fire''), 1), ((''ja'', PStr ''Hi''), 1)],
       id_gen = 2, last_id = 0\<rparr>)
   \<and> DataMap_entry_of
        \<lparr>data = [(1, \<lparr>row_id = 1, row_data = fire_entry\<rparr>)],
         reverse_entries = [((''en'', PStr ''Fire''), 1), ((''ja'', PStr ''Hi''), 1)],
         id_gen = 2, last_id = 0\<rparr> ''ja'' (PStr ''Hi'')
      = Inr (Some \<lparr>row_id = 1, row_data = fire_entry\<rparr>)"
proof -
  have run: "do_call DataMap_empty (Insert fire_entry) =
     (Inr \<lparr>row_id = 1, row_data = fire_entry\<rparr>,
      \<lparr>data = [(1, \<lparr>row_id = 1, row_data = fire_entry\<rparr>)],
       reverse_entries = [((''en'', PStr ''Fire''), 1), ((''ja'', PStr ''Hi''), 1)],
       id_gen = 2, last_id = 0\<rparr>)"
    by (simp add: DataMap_insert_def DataMap_empty_def DataMap_add_entry_internal_def
        fire_entry_def dict_contains_def dict_keys_def DataRow_names_def DataRow_getitem_def
        dict_get_def Let_def)
  have ns: "DataRow_names \<lparr>row_id = 1, row_data = fire_entry\<rparr>
              = Inr [(''en'', PStr ''Fire''), (''ja'', PStr ''Hi'')]"
    by (simp add: DataRow_names_def DataRow_getitem_def dict_get_def fire_entry_def)
  from fresh_record_reachable_by_every_name [OF run] ns run show ?thesis
    by auto
qed

section \<open>Order of the checks of \<open>add_entry\<close>\<close>

text \<open>
  C7 (as the code has it). \<open>_add_entry\<close> checks for the \<open>name\<close> field first and for the
  identifier second. For an identifier already present, \<open>add_entry\<close> fails with
  \<open>DuplicateKey\<close> when the raw fields have a \<open>name\<close> entry and with \<open>MissingField\<close> when
  they have none.
\<close>

theorem add_entry_present_id_checks_name_first:
  assumes "dict_contains entry_id (data s)"
  shows "fst (DataMap_add_entry s entry_id entry) =
           Inl (if dict_contains ''name'' entry then DuplicateKey else MissingField)"
proof -
  have "dict_contains entry_id (data (s\<lparr>id_gen := entry_id + 1, last_id := entry_id\<rparr>))"
    using assms by simp
  with assms show ?thesis
    by (simp add: DataMap_add_entry_def Let_def add_entry_internal_duplicate)
qed

theorem add_entry_present_id_checks_name_first_witness:
  "dict_contains 5 (data store_five) \<and>
   fst (DataMap_add_entry store_five 5 ice_entry) = Inl DuplicateKey \<and>
   fst (DataMap_add_entry store_five 5 no_name_entry) = Inl MissingField"
proof -
  have h: "dict_contains 5 (data store_five)"
    by (simp add: store_five_eq dict_contains_def dict_keys_def)
  have a: "dict_contains ''name'' ice_entry" and b: "\<not> dict_contains ''name'' no_name_entry"
    by (simp_all add: dict_contains_def dict_keys_def ice_entry_def no_name_entry_def)
  from add_entry_present_id_checks_name_first [OF h, of ice_entry]
       add_entry_present_id_checks_name_first [OF h, of no_name_entry] h a b
  show ?thesis by simp
qed

text \<open>
  The duplicate check is not the first step: with identifier 1 present, raw fields without
  a \<open>name\<close> entry fail with \<open>MissingField\<close>.
\<close>

theorem add_entry_present_id_checks_name_first_counterexample:
  "dict_contains 1 (data store_one) \<and>
   fst (DataMap_add_entry store_one 1 no_name_entry) = Inl MissingField"
  by (simp add: store_one_eq eval_defs)

section \<open>Duplicate identifiers\<close>

text \<open>
  C2 (as the code has it). \<open>add_entry\<close> with an identifier already present fails, with
  \<open>DuplicateKey\<close> when the raw fields have a \<open>name\<close> entry and with \<open>MissingField\<close>
  otherwise, and leaves \<open>_data\<close> and \<open>_reverse_entries\<close> as they were; when the identifier
  is not above \<open>_last_id\<close> the whole state, generator included, is unchanged.
\<close>

theorem duplicate_add_entry_fails_and_keeps_entries:
  assumes "dict_contains entry_id (data s)"
  shows "\<exists>s'. DataMap_add_entry s entry_id entry =
                 (Inl (if dict_contains ''name'' entry then DuplicateKey else MissingField), s')
            \<and> data s' = data s \<and> reverse_entries s' = reverse_entries s
            \<and> (entry_id \<le> last_id s \<longrightarrow> s' = s)"
proof -
  have "dict_contains entry_id (data (s\<lparr>id_gen := entry_id + 1, last_id := entry_id\<rparr>))"
    using assms by simp
  with assms show ?thesis
    by (simp add: DataMap_add_entry_def Let_def add_entry_internal_duplicate)
qed

theorem duplicate_add_entry_fails_and_keeps_entries_witness:
  "dict_contains 5 (data store_five) \<and> (5::int) \<le> last_id store_five \<and>
   DataMap_add_entry store_five 5 ice_entry = (Inl DuplicateKey, store_five)"
proof -
  have h: "dict_contains 5 (data store_five)"
    by (simp add: store_five_eq dict_contains_def dict_keys_def)
  have l: "(5::int) \<le> last_id store_five" by (simp add: store_five_eq)
  have a: "dict_contains ''name'' ice_entry"
    by (simp add: dict_contains_def dict_keys_def ice_entry_def)
  from duplicate_add_entry_fails_and_keeps_entries [OF h, of ice_entry] h l a
  show ?thesis by auto
qed

text \<open>
  After one \<open>insert\<close> the identifier 1 is present and \<open>_last_id\<close> is still 0: adding
  identifier 1 again fails with \<open>DuplicateKey\<close> but sets \<open>_last_id\<close> to 1; without a
  \<open>name\<close> entry the failure is \<open>MissingField\<close>.
\<close>

theorem duplicate_add_entry_state_counterexample:
  "dict_contains 1 (data store_one) \<and>
   DataMap_add_entry store_one 1 ice_entry = (Inl DuplicateKey, store_one\<lparr>last_id := 1\<rparr>) \<and>
   last_id store_one = 0 \<and>
   fst (DataMap_add_entry store_one 1 no_name_entry) = Inl MissingField"
  by (simp add: store_one_eq eval_defs)

section \<open>Colliding names\<close>

text \<open>
  C10 (as the code has it). The code has no check for a colliding name, but it does reject
  an identifier that is already present. An insertion whose identifier is not yet in
  \<open>_data\<close> (the argument of \<open>add_entry\<close>, or the generated identifier of \<open>insert\<close>) and
  whose name translations contain a (language, name) pair that \<open>_reverse_entries\<close> maps to
  a different existing identifier succeeds: the pair now resolves to the new identifier
  and the new row, no longer to the old identifier, and the old row is still in \<open>_data\<close>.
\<close>

theorem colliding_name_overwrites_reverse_entry:
  assumes call: "c = AddEntry entry_id entry \<or> (c = Insert entry \<and> entry_id = id_gen s)"
    and ns: "DataRow_names \<lparr>row_id = entry_id, row_data = entry\<rparr> = Inr ns"
    and hs: "\<forall>(l, n) \<in> set ns. hashable n"
    and fresh: "\<not> dict_contains entry_id (data s)"
    and mem: "(lang, name) \<in> set ns"
    and claimed: "DataMap_id_of s lang name = Inr (Some old_id)"
    and other: "old_id \<noteq> entry_id"
    and old: "dict_get (data s) old_id = Some old_row"
  shows "\<exists>r s'. do_call s c = (Inr r, s') \<and>
           r = \<lparr>row_id = entry_id, row_data = entry\<rparr> \<and>
           DataMap_id_of s' lang name = Inr (Some entry_id) \<and>
           DataMap_id_of s' lang name \<noteq> Inr (Some old_id) \<and>
           DataMap_entry_of s' lang name = Inr (Some r) \<and>
           dict_get (data s') old_id = Some old_row"
proof -
  have "\<exists>s1. do_call s c = DataMap_add_entry_internal s1 entry_id entry \<and> data s1 = data s"
    using call by (auto simp: DataMap_add_entry_def DataMap_insert_def Let_def)
  then obtain s1 where c: "do_call s c = DataMap_add_entry_internal s1 entry_id entry"
    and d: "data s1 = data s" by blast
  from fresh old d have f1: "\<not> dict_contains entry_id (data s1)"
    and o1: "dict_get (data s1) old_id = Some old_row"
    by (simp_all add: dict_contains_def)
  from colliding_name_internal [OF ns hs f1 mem o1] c other show ?thesis
    by auto
qed

theorem colliding_name_overwrites_reverse_entry_witness:
  "DataMap_id_of store_one ''en'' (PStr ''Fire'') = Inr (Some 1) \<and>
   fst (do_call store_one (Insert fire_again_entry)) = Inr \<lparr>row_id = 2, row_data = fire_again_entry\<rparr> \<and>
   DataMap_id_of (snd (do_call store_one (Insert fire_again_entry))) ''en'' (PStr ''Fire'') = Inr (Some 2) \<and>
   DataMap_entry_of (snd (do_call store_one (Insert fire_again_entry))) ''en'' (PStr ''Fire'')
     = Inr (Some \<lparr>row_id = 2, row_data = fire_again_entry\<rparr>) \<and>
   dict_get (data (snd (do_call store_one (Insert fire_again_entry)))) 1
     = Some \<lparr>row_id = 1, row_data = fire_entry\<rparr>"
proof -
  have call: "Insert fire_again_entry = AddEntry 2 fire_again_entry \<or>
      (Insert fire_again_entry = Insert fire_again_entry \<and> 2 = id_gen store_one)"
    by (simp add: store_one_eq)
  have ns: "DataRow_names \<lparr>row_id = 2, row_data = fire_again_entry\<rparr> = Inr [(''en'', PStr ''Fire'')]"
    by (simp add: DataRow_names_def DataRow_getitem_def dict_get_def fire_again_entry_def)
  have hs: "\<forall>(l, n) \<in> set [(''en'', PStr ''Fire'')]. hashable n" by simp
  have fresh: "\<not> dict_contains 2 (data store_one)"
    by (simp add: store_one_eq dict_contains_def dict_keys_def)
  have mem: "(''en'', PStr ''Fire'') \<in> set [(''en'', PStr ''Fire'')]" by simp
  have claimed: "DataMap_id_of store_one ''en'' (PStr ''Fire'') = Inr (Some 1)"
    by (simp add: store_one_eq DataMap_id_of_def dict_get_def)
  have other: "(1::int) \<noteq> 2" by simp
  have old: "dict_get (data store_one) 1 = Some \<lparr>row_id = 1, row_data = fire_entry\<rparr>"
    by (simp add: store_one_eq dict_get_def)
  from colliding_name_overwrites_reverse_entry [OF call ns hs fresh mem claimed other old] claimed
  show ?thesis by auto
qed

text \<open>
  With identifiers 1 and 2 present and \<open>('en', 'Fire')\<close> mapped to 1, \<open>add_entry\<close> with
  identifier 2 and the name \<open>('en', 'Fire')\<close> fails with \<open>DuplicateKey\<close>, and the pair still
  resolves to 1.
\<close>

theorem colliding_name_duplicate_id_counterexample:
  "DataRow_names \<lparr>row_id = 2, row_data = fire_again_entry\<rparr> = Inr [(''en'', PStr ''Fire'')] \<and>
   DataMap_id_of store_two ''en'' (PStr ''Fire'') = Inr (Some 1) \<and>
   dict_get (data store_two) 1 = Some \<lparr>row_id = 1, row_data = fire_entry\<rparr> \<and>
   fst (DataMap_add_entry store_two 2 fire_again_entry) = Inl DuplicateKey \<and>
   DataMap_id_of (snd (DataMap_add_entry store_two 2 fire_again_entry)) ''en'' (PStr ''Fire'')
     = Inr (Some 1)"
  by (simp add: store_two_eq eval_defs fire_again_entry_def DataMap_id_of_def)

section \<open>Insertion order\<close>

text \<open>
  C8. For every sequence of \<open>insert\<close> and \<open>add_entry\<close> calls that all succeed, iterating
  the map afterwards yields the identifiers it held before followed by the identifiers the
  calls asked for, one per call and in the order of the calls, whatever their numeric
  values; these are the identifiers of the rows returned.
\<close>

theorem iteration_follows_insertion_order:
  assumes run: "run_calls s cs = (ress, s')"
    and ok: "\<forall>res \<in> set ress. \<exists>r. res = Inr r"
  shows "DataMap_iter s' = DataMap_iter s @ ids_asked s cs \<and>
         map row_id (successes ress) = ids_asked s cs \<and>
         length ress = length cs"
proof -
  from iter_after_run_calls [of s cs] run
  have "DataMap_iter s' = DataMap_iter s @ map row_id (successes ress)" by simp
  moreover from successful_rows_have_ids_asked [OF run ok]
  have ids: "map row_id (successes ress) = ids_asked s cs" .
  moreover have "length (ids_asked s cs) = length cs" for s
    by (induction cs arbitrary: s) auto
  moreover have "length (successes ress) = length ress"
    using ok by (induction ress rule: successes.induct) auto
  ultimately show ?thesis by (metis length_map)
qed

theorem iteration_follows_insertion_order_witness:
  "run_calls DataMap_empty [AddEntry 5 fire_entry, AddEntry 2 ice_entry, Insert water_entry]
     = ([Inr \<lparr>row_id = 5, row_data = fire_entry\<rparr>, Inr \<lparr>row_id = 2, row_data = ice_entry\<rparr>,
         Inr \<lparr>row_id = 6, row_data = water_entry\<rparr>],
        snd (run_calls DataMap_empty [AddEntry 5 fire_entry, AddEntry 2 ice_entry, Insert water_entry])) \<and>
   ids_asked DataMap_empty [AddEntry 5 fire_entry, AddEntry 2 ice_entry, Insert water_entry] = [5, 2, 6] \<and>
   DataMap_iter (snd (run_calls DataMap_empty
       [AddEntry 5 fire_entry, AddEntry 2 ice_entry, Insert water_entry])) = [5, 2, 6]"
proof -
  have run: "run_calls DataMap_empty [AddEntry 5 fire_entry, AddEntry 2 ice_entry, Insert water_entry]
     = ([Inr \<lparr>row_id = 5, row_data = fire_entry\<rparr>, Inr \<lparr>row_id = 2, row_data = ice_entry\<rparr>,
         Inr \<lparr>row_id = 6, row_data = water_entry\<rparr>],
        snd (run_calls DataMap_empty [AddEntry 5 fire_entry, AddEntry 2 ice_entry, Insert water_entry]))"
    by (simp add: eval_defs water_entry_def)
  have ok: "\<forall>res \<in> set [Inr \<lparr>row_id = 5, row_data = fire_entry\<rparr>, Inr \<lparr>row_id = 2, row_data = ice_entry\<rparr>,
         Inr \<lparr>row_id = 6, row_data = water_entry\<rparr>]. \<exists>r. res = Inr r"
    by simp
  have ids: "ids_asked DataMap_empty [AddEntry 5 fire_entry, AddEntry 2 ice_entry, Insert water_entry] = [5, 2, 6]"
    by (simp add: eval_defs water_entry_def)
  have empty: "DataMap_iter DataMap_empty = []"
    by (simp add: DataMap_iter_def DataMap_empty_def dict_keys_def)
  from iteration_follows_insertion_order [OF run ok] run ids empty show ?thesis
    by simp
qed

section \<open>Identifier generation\<close>

text \<open>
  C1 (the code breaks it). \<open>insert\<close> draws from the generator without updating
  \<open>_last_id\<close>, as \<open>_generate_id\<close> would. After two inserts (identifiers 1 and 2,
  \<open>_last_id\<close> still 0) \<open>add_entry\<close> with identifier 1 fails with \<open>DuplicateKey\<close>, but only
  after resetting the generator to 2: the state still has \<open>last_id < id_gen\<close>, yet the next
  generated identifier is 2, which is assigned already, and the next \<open>insert\<close> fails.
\<close>

theorem generated_id_collides_after_duplicate_add:
  "run_calls DataMap_empty [Insert fire_entry, Insert ice_entry, AddEntry 1 water_entry]
     = ([Inr \<lparr>row_id = 1, row_data = fire_entry\<rparr>, Inr \<lparr>row_id = 2, row_data = ice_entry\<rparr>,
         Inl DuplicateKey], store_two_after_duplicate) \<and>
   DataMap_iter store_two_after_duplicate = [1, 2] \<and>
   id_gen store_two_after_duplicate = 2 \<and>
   last_id store_two_after_duplicate < id_gen store_two_after_duplicate \<and>
   fst (DataMap_insert store_two_after_duplicate water_entry) = Inl DuplicateKey"
  by (simp add: store_two_after_duplicate_eq store_two_eq eval_defs water_entry_def DataMap_iter_def)

text \<open>
  C6 (the code breaks it). On the empty map \<open>insert\<close> and \<open>add_entry\<close> with the current
  generator value return the same row, but \<open>insert\<close> leaves \<open>_last_id\<close> at 0 where
  \<open>add_entry\<close> sets it to 1. The difference shows later: after two rows added by \<open>insert\<close>
  a failed duplicate \<open>add_entry\<close> makes the next \<open>insert\<close> fail; after the same two rows
  added by \<open>add_entry\<close> the next \<open>insert\<close> succeeds with identifier 3.
\<close>

theorem insert_leaves_last_id_behind:
  "fst (DataMap_insert DataMap_empty fire_entry)
     = fst (DataMap_add_entry DataMap_empty (id_gen DataMap_empty) fire_entry) \<and>
   last_id (snd (DataMap_insert DataMap_empty fire_entry)) = 0 \<and>
   last_id (snd (DataMap_add_entry DataMap_empty (id_gen DataMap_empty) fire_entry)) = 1 \<and>
   fst (run_calls DataMap_empty
          [Insert fire_entry, Insert ice_entry, AddEntry 1 water_entry, Insert water_entry])
     = [Inr \<lparr>row_id = 1, row_data = fire_entry\<rparr>, Inr \<lparr>row_id = 2, row_data = ice_entry\<rparr>,
        Inl DuplicateKey, Inl DuplicateKey] \<and>
   fst (run_calls DataMap_empty
          [AddEntry 1 fire_entry, AddEntry 2 ice_entry, AddEntry 1 water_entry, Insert water_entry])
     = [Inr \<lparr>row_id = 1, row_data = fire_entry\<rparr>, Inr \<lparr>row_id = 2, row_data = ice_entry\<rparr>,
        Inl DuplicateKey, Inr \<lparr>row_id = 3, row_data = water_entry\<rparr>]"
  by (simp add: eval_defs water_entry_def)

section \<open>Iterating the names of one language\<close>

text \<open>
  C9. Let the rows of the map, in insertion order, be \<open>pre @ post\<close>, where every row of
  \<open>pre\<close> has the language in its name translations. If \<open>post\<close> is empty, iterating
  \<open>names(lang)\<close> yields the name of every row in order and ends normally. If the first row
  of \<open>post\<close> lacks the language, the iteration yields the names of the rows of \<open>pre\<close>, in
  order, and then fails with \<open>KeyNotFound\<close>: the row is not skipped.
\<close>

theorem names_yields_until_first_missing_language:
  assumes rows: "DataMap_values s = pre @ post"
    and pre: "\<forall>row \<in> set pre. \<exists>ns n. DataRow_names row = Inr ns \<and> dict_get ns lang = Some n"
    and post: "post \<noteq> [] \<longrightarrow> (\<exists>ns. DataRow_names (hd post) = Inr ns \<and> dict_get ns lang = None)"
  shows "\<exists>ys. NameSet_iter (DataMap_names s lang)
                 = (ys, if post = [] then None else Some KeyNotFound)
            \<and> map Inr ys = map (\<lambda>row. DataRow_name row lang) pre"
proof -
  have tail: "yield_names post lang = ([], if post = [] then None else Some KeyNotFound)"
  proof (cases post)
    case Nil
    then show ?thesis by simp
  next
    case (Cons row rest)
    with post obtain ns where "DataRow_names row = Inr ns" and "dict_get ns lang = None" by auto
    with name_of_translations [of row ns lang] have "DataRow_name row lang = Inl KeyNotFound" by simp
    with Cons show ?thesis by simp
  qed
  from yield_names_prefix [OF pre, of post] tail rows show ?thesis
    by (simp add: NameSet_iter_def DataMap_names_def)
qed

theorem names_yields_until_first_missing_language_witness:
  "DataMap_values store_two =
     [\<lparr>row_id = 1, row_data = fire_entry\<rparr>] @ [\<lparr>row_id = 2, row_data = ice_entry\<rparr>] \<and>
   DataRow_names \<lparr>row_id = 1, row_data = fire_entry\<rparr> = Inr [(''en'', PStr ''Fire''), (''ja'', PStr ''Hi'')] \<and>
   DataRow_names \<lparr>row_id = 2, row_data = ice_entry\<rparr> = Inr [(''en'', PStr ''Ice'')] \<and>
   NameSet_iter (DataMap_names store_two ''ja'') = ([PStr ''Hi''], Some KeyNotFound)"
proof -
  have rows: "DataMap_values store_two =
     [\<lparr>row_id = 1, row_data = fire_entry\<rparr>] @ [\<lparr>row_id = 2, row_data = ice_entry\<rparr>]"
    by (simp add: DataMap_values_def store_two_eq)
  have n1: "DataRow_names \<lparr>row_id = 1, row_data = fire_entry\<rparr>
              = Inr [(''en'', PStr ''Fire''), (''ja'', PStr ''Hi'')]"
    by (simp add: DataRow_names_def DataRow_getitem_def dict_get_def fire_entry_def)
  have n2: "DataRow_names \<lparr>row_id = 2, row_data = ice_entry\<rparr> = Inr [(''en'', PStr ''Ice'')]"
    by (simp add: DataRow_names_def DataRow_getitem_def dict_get_def ice_entry_def)
  have nm: "DataRow_name \<lparr>row_id = 1, row_data = fire_entry\<rparr> ''ja'' = Inr (PStr ''Hi'')"
    by (simp add: DataRow_name_def DataRow_getitem_def dict_get_def fire_entry_def)
  have pre: "\<forall>row \<in> set [\<lparr>row_id = 1, row_data = fire_entry\<rparr>].
      \<exists>ns n. DataRow_names row = Inr ns \<and> dict_get ns ''ja'' = Some n"
    using n1 by (simp add: dict_get_def)
  have post: "[\<lparr>row_id = 2, row_data = ice_entry\<rparr>] \<noteq> [] \<longrightarrow>
      (\<exists>ns. DataRow_names (hd [\<lparr>row_id = 2, row_data = ice_entry\<rparr>]) = Inr ns \<and> dict_get ns ''ja'' = None)"
    using n2 by (simp add: dict_get_def)
  from names_yields_until_first_missing_language [OF rows pre post] nm rows n1 n2
  show ?thesis by auto
qed

section \<open>Placing a field after another\<close>

text \<open>
  C4 (as the code has it). Let the fields of a row be distinct, with a non-empty anchor
  \<open>after\<close> among them. For a key not yet in the row, \<open>set_value\<close> puts the key immediately
  after the anchor and keeps the fields that followed the anchor behind it in their order.
  For a key already in the row, \<open>set_value\<close> is the plain assignment: the value changes
  and the order of the fields does not.
\<close>

theorem set_value_places_fresh_key_after_anchor:
  assumes "row_data r = dpre @ (after, va) # dpost"
    and "distinct (DataRow_iter r)"
    and "after \<noteq> []"
  shows "(key \<notin> set (DataRow_iter r) \<longrightarrow>
            DataRow_set_value r key val after =
              Inr (r\<lparr>row_data := dpre @ (after, va) # (key, val) # dpost\<rparr>)) \<and>
         (key \<in> set (DataRow_iter r) \<longrightarrow>
            DataRow_set_value r key val after = Inr (DataRow_setitem r key val) \<and>
            DataRow_iter (DataRow_setitem r key val) = DataRow_iter r)"
  using set_value_fresh_key [OF assms] set_value_present_key [OF assms]
    dict_keys_dict_set [of "row_data r" key val]
  by (simp add: DataRow_iter_def DataRow_setitem_def)

theorem set_value_places_fresh_key_after_anchor_witness:
  "row_data abcd_row = [(''a'', PInt 1)] @ (''b'', PInt 2) # [(''c'', PInt 3), (''d'', PInt 4)] \<and>
   distinct (DataRow_iter abcd_row) \<and>
   ''e'' \<notin> set (DataRow_iter abcd_row) \<and> ''d'' \<in> set (DataRow_iter abcd_row) \<and>
   DataRow_set_value abcd_row ''e'' (PInt 5) ''b'' =
     Inr \<lparr>row_id = 1, row_data =
       [(''a'', PInt 1), (''b'', PInt 2), (''e'', PInt 5), (''c'', PInt 3), (''d'', PInt 4)]\<rparr> \<and>
   DataRow_set_value abcd_row ''d'' (PInt 5) ''b'' =
     Inr \<lparr>row_id = 1, row_data =
       [(''a'', PInt 1), (''b'', PInt 2), (''c'', PInt 3), (''d'', PInt 5)]\<rparr>"
proof -
  have d: "row_data abcd_row = [(''a'', PInt 1)] @ (''b'', PInt 2) # [(''c'', PInt 3), (''d'', PInt 4)]"
    by (simp add: abcd_row_def)
  have dist: "distinct (DataRow_iter abcd_row)"
    by (simp add: abcd_row_def DataRow_iter_def dict_keys_def)
  have ne: "''b'' \<noteq> []" by simp
  have e: "''e'' \<notin> set (DataRow_iter abcd_row)" and dd: "''d'' \<in> set (DataRow_iter abcd_row)"
    by (simp_all add: abcd_row_def DataRow_iter_def dict_keys_def)
  from set_value_places_fresh_key_after_anchor [OF d dist ne, of "''e''" "PInt 5"]
       set_value_places_fresh_key_after_anchor [OF d dist ne, of "''d''" "PInt 5"] d dist e dd
  show ?thesis
    by (simp add: abcd_row_def DataRow_setitem_def)
qed

text \<open>
  Setting the existing field \<open>a\<close> after \<open>c\<close> leaves \<open>a\<close> first; and an anchor that is
  the empty string, although present, is taken as no anchor at all.
\<close>

theorem set_value_existing_key_counterexample:
  "DataRow_iter abcd_row = [''a'', ''b'', ''c'', ''d''] \<and>
   DataRow_set_value abcd_row ''a'' (PInt 9) ''c'' =
     Inr \<lparr>row_id = 1, row_data =
       [(''a'', PInt 9), (''b'', PInt 2), (''c'', PInt 3), (''d'', PInt 4)]\<rparr> \<and>
   DataRow_iter empty_key_row = ['''', ''b''] \<and>
   DataRow_set_value empty_key_row ''e'' (PInt 5) '''' =
     Inr \<lparr>row_id = 1, row_data = [('''', PInt 1), (''b'', PInt 2), (''e'', PInt 5)]\<rparr>"
  by (simp add: abcd_row_def empty_key_row_def row_eval_defs)

text \<open>
  C5. On a row with fields \<open>a, b, c, d\<close>, \<open>set_value\<close> of the fresh field \<open>e\<close> after
  \<open>b\<close> gives the order \<open>a, b, e, c, d\<close>. With an anchor that is absent from the row,
  \<open>set_value\<close> is the plain assignment: a new key is appended at the end, a present key
  keeps its position, and every other field keeps its position and value.
\<close>

theorem set_value_example_and_absent_anchor:
  "DataRow_set_value
     \<lparr>row_id = i, row_data = [(''a'', va), (''b'', vb), (''c'', vc), (''d'', vd)]\<rparr> ''e'' v ''b''
     = Inr \<lparr>row_id = i, row_data = [(''a'', va), (''b'', vb), (''e'', v), (''c'', vc), (''d'', vd)]\<rparr>
   \<and> (after \<notin> set (DataRow_iter r) \<longrightarrow>
        DataRow_set_value r key val after = Inr (DataRow_setitem r key val) \<and>
        DataRow_iter (DataRow_setitem r key val) =
          (if key \<in> set (DataRow_iter r) then DataRow_iter r else DataRow_iter r @ [key]) \<and>
        (\<forall>k. DataRow_getitem (DataRow_setitem r key val) k =
               (if k = key then Inr val else DataRow_getitem r k)))"
proof -
  have ex: "DataRow_set_value
     \<lparr>row_id = i, row_data = [(''a'', va), (''b'', vb), (''c'', vc), (''d'', vd)]\<rparr> ''e'' v ''b''
     = Inr \<lparr>row_id = i, row_data = [(''a'', va), (''b'', vb), (''e'', v), (''c'', vc), (''d'', vd)]\<rparr>"
    by (simp add: row_eval_defs)
  have absent: "DataRow_set_value r key val after = Inr (DataRow_setitem r key val)"
    if "after \<notin> set (DataRow_iter r)"
    using that collect_anchor_absent [of after "dict_keys (row_data r)" "[]"]
    by (simp add: DataRow_set_value_def DataRow_iter_def Let_def)
  have order: "DataRow_iter (DataRow_setitem r key val) =
          (if key \<in> set (DataRow_iter r) then DataRow_iter r else DataRow_iter r @ [key])"
    using dict_keys_dict_set [of "row_data r" key val]
    by (simp add: DataRow_iter_def DataRow_setitem_def)
  have vals: "DataRow_getitem (DataRow_setitem r key val) k =
               (if k = key then Inr val else DataRow_getitem r k)" for k
    by (simp add: DataRow_getitem_def DataRow_setitem_def dict_get_def map_of_dict_set)
  from ex absent order vals show ?thesis by blast
qed

theorem set_value_example_and_absent_anchor_witness:
  "''z'' \<notin> set (DataRow_iter abcd_row) \<and>
   DataRow_set_value abcd_row ''e'' (PInt 5) ''z'' =
     Inr \<lparr>row_id = 1, row_data =
       [(''a'', PInt 1), (''b'', PInt 2), (''c'', PInt 3), (''d'', PInt 4), (''e'', PInt 5)]\<rparr> \<and>
   DataRow_set_value abcd_row ''b'' (PInt 5) ''z'' =
     Inr \<lparr>row_id = 1, row_data =
       [(''a'', PInt 1), (''b'', PInt 5), (''c'', PInt 3), (''d'', PInt 4)]\<rparr>"
proof -
  have z: "''z'' \<notin> set (DataRow_iter abcd_row)"
    by (simp add: abcd_row_def DataRow_iter_def dict_keys_def)
  from set_value_example_and_absent_anchor [of _ _ _ _ _ _ "''z''" abcd_row "''e''" "PInt 5"]
       set_value_example_and_absent_anchor [of _ _ _ _ _ _ "''z''" abcd_row "''b''" "PInt 5"] z
  show ?thesis
    by (simp add: abcd_row_def DataRow_setitem_def)
qed

end
